theory Spec2Isabelle
  imports Complex_Main
begin

section \<open>The line-following robot simulation (line\_follower\_sim.py)\<close>

text \<open>
  A shallow embedding of the sensing, deciding and pose-update code of the simulation.
  Python numbers are modelled by \<open>int\<close> where the source only ever holds integers (the lost-line
  counter, pixel coordinates, colour channels) and by \<open>real\<close> where it holds floats (turn angles,
  speeds, positions, angles): a float is the real number it denotes. The two float operations
  whose rounding decides a property here carry their rounding: the \<open>%\<close> operator and the addition
  of the turn to the angle round to the nearest double, as the hardware does. Every number the
  decision function computes is a small multiple of one half, which a float holds exactly. The
  counter is converted to a float as it is: a float holds every integer below \<open>2 ^ 53\<close>, and
  a counter reachable from the initial state is at most 120. \<open>math.cos\<close>, \<open>math.sin\<close>,
  \<open>math.radians\<close> and the arithmetic on the position are taken over the reals. The two module
  globals \<open>ROBOT_MODE\<close> and \<open>LOST_LINE_COUNTER\<close> are a record that the decision function takes
  and returns. \<open>exit()\<close> raises \<open>SystemExit\<close>; raising is a result \<open>Inl\<close>. The \<open>print\<close> calls
  have no effect on the values and are left out.
\<close>

subsection \<open>Constants\<close>

definition WIDTH :: int where "WIDTH = 800"
definition HEIGHT :: int where "HEIGHT = 600"

type_synonym color = "int \<times> int \<times> int"

definition WHITE :: color where "WHITE = (255, 255, 255)"
definition BLACK :: color where "BLACK = (0, 0, 0)"

definition sensor_forward_distance :: real where "sensor_forward_distance = 20"
definition sensor_lateral_offset :: real where "sensor_lateral_offset = 15"

definition BASE_ROBOT_SPEED :: real where "BASE_ROBOT_SPEED = 2"
definition TURN_RATE :: real where "TURN_RATE = 2"

datatype sensor_name = center | left | right | left_forward | right_forward

text \<open>The keys of the dictionaries, in the order \<open>calculate_sensor_positions\<close> inserts them.\<close>

definition sensor_names :: "sensor_name list" where
  "sensor_names = [center, left, right, left_forward, right_forward]"

fun SENSOR_WEIGHTS :: "sensor_name \<Rightarrow> real" where
  "SENSOR_WEIGHTS left_forward = - 3.0"
| "SENSOR_WEIGHTS left = - 2.0"
| "SENSOR_WEIGHTS center = 0.0"
| "SENSOR_WEIGHTS right = 2.0"
| "SENSOR_WEIGHTS right_forward = 3.0"

datatype robot_mode = FOLLOW_LINE | LOST_LINE_SEARCH

record globals =
  ROBOT_MODE :: robot_mode
  LOST_LINE_COUNTER :: int

definition MAX_LOST_TIME_FRAMES :: int where "MAX_LOST_TIME_FRAMES = 120"

datatype py_exception = SystemExit | IndexError

subsection \<open>Python arithmetic\<close>

text \<open>Python's \<open>int(x)\<close> on a float truncates towards zero.\<close>

definition py_int :: "real \<Rightarrow> int" where
  "py_int x = (if 0 \<le> x then \<lfloor>x\<rfloor> else \<lceil>x\<rceil>)"

text \<open>
  Rounding a real to the nearest double (IEEE 754 binary64, ties to even): the doubles around
  \<open>x\<close> are the multiples of \<open>2 powi (e - 52)\<close>, where \<open>2 powi e \<le> \<bar>x\<bar> < 2 powi (e + 1)\<close>,
  and of \<open>2 powi (- 1074)\<close> in the subnormal range. Results beyond the largest finite double, which
  would be infinite, do not occur at the magnitudes of this program.
\<close>

definition round_half_even :: "real \<Rightarrow> int" where
  "round_half_even r =
     (let f = \<lfloor>r\<rfloor>; d = r - of_int f
      in if d < 1 / 2 then f else if 1 / 2 < d then f + 1 else if even f then f else f + 1)"

definition round_double :: "real \<Rightarrow> real" where
  "round_double x =
     (if x = 0 then 0
      else let e = max \<lfloor>log 2 \<bar>x\<bar>\<rfloor> (- 1022);
               q = 2 powi (e - 52)
           in q * of_int (round_half_even (x / q)))"

text \<open>C's \<open>fmod\<close>: the remainder with the sign of \<open>x\<close>, which is exact.\<close>

definition fmod :: "real \<Rightarrow> real \<Rightarrow> real" where
  "fmod x y = x - y * of_int (py_int (x / y))"

text \<open>
  Python's \<open>%\<close> on floats, as CPython computes it: \<open>fmod\<close>, and when the remainder is not zero
  and its sign differs from the divisor's, the divisor is added to it, in float arithmetic. Both
  uses in the source divide by a constant, 60.0 and 360, so division by zero does not arise.
\<close>

definition py_mod :: "real \<Rightarrow> real \<Rightarrow> real" where
  "py_mod x y =
     (let m = fmod x y
      in if m \<noteq> 0 then (if (y < 0) \<noteq> (m < 0) then round_double (m + y) else m)
         else 0)"

text \<open>\<open>math.radians\<close>.\<close>

definition radians :: "real \<Rightarrow> real" where
  "radians d = d * pi / 180"

subsection \<open>The decision function\<close>

type_synonym sensor_states = "sensor_name \<Rightarrow> bool"

text \<open>\<open>sum(SENSOR_WEIGHTS[s] for s in sensor_states if sensor_states[s])\<close>.\<close>

definition steering_error :: "sensor_states \<Rightarrow> real" where
  "steering_error sensor_states = sum_list (map SENSOR_WEIGHTS (filter sensor_states sensor_names))"

text \<open>\<open>max(-TURN_RATE * 3, min(TURN_RATE * 3, turn_angle))\<close>.\<close>

definition clamp_turn :: "real \<Rightarrow> real" where
  "clamp_turn turn_angle = max (- TURN_RATE * 3) (min (TURN_RATE * 3) turn_angle)"

text \<open>
  The branch of \<open>FOLLOW_LINE\<close> taken when the centre sensor is off and some other sensor is on:
  the \<open>if\<close>/\<open>elif\<close> chain of the source, in its order.
\<close>

definition center_off_turn :: "sensor_states \<Rightarrow> real" where
  "center_off_turn sensor_states =
     (if sensor_states left \<and> \<not> sensor_states right then - TURN_RATE * 1.5
      else if sensor_states right \<and> \<not> sensor_states left then TURN_RATE * 1.5
      else if sensor_states left_forward \<and> \<not> sensor_states right_forward then - TURN_RATE * 2
      else if sensor_states right_forward \<and> \<not> sensor_states left_forward then TURN_RATE * 2
      else clamp_turn (steering_error sensor_states * TURN_RATE))"

text \<open>
  The oscillation of \<open>LOST_LINE_SEARCH\<close>, on the counter as already incremented. The counter,
  an integer, is converted to a float for \<open>%\<close>; it is at most 121 here in any run from the
  initial state, and the conversion is exact below \<open>2 ^ 53\<close>.
\<close>

definition search_turn :: "int \<Rightarrow> real" where
  "search_turn counter =
     (if py_mod (of_int counter) (of_int MAX_LOST_TIME_FRAMES / 2) < of_int MAX_LOST_TIME_FRAMES / 4
      then TURN_RATE * 1.5 else - TURN_RATE * 1.5)"

text \<open>
  \<open>decide_robot_action\<close>: the globals before the call and the sensor readings give either
  \<open>SystemExit\<close> or the globals after the call with the pair \<open>(turn_angle, current_speed)\<close>.
\<close>

definition decide_robot_action ::
    "globals \<Rightarrow> sensor_states \<Rightarrow> py_exception + (globals \<times> real \<times> real)" where
  "decide_robot_action g sensor_states =
     (let turn_angle = 0;
          current_speed = BASE_ROBOT_SPEED;
          any_sensor_on_line = list_ex sensor_states sensor_names
      in case ROBOT_MODE g of
           FOLLOW_LINE \<Rightarrow>
             if \<not> any_sensor_on_line then
               Inr (g\<lparr>ROBOT_MODE := LOST_LINE_SEARCH, LOST_LINE_COUNTER := 0\<rparr>, turn_angle, 0)
             else if sensor_states center then
               Inr (g\<lparr>LOST_LINE_COUNTER := 0\<rparr>,
                    clamp_turn (steering_error sensor_states * TURN_RATE), current_speed)
             else
               Inr (g\<lparr>LOST_LINE_COUNTER := 0\<rparr>, center_off_turn sensor_states, current_speed)
         | LOST_LINE_SEARCH \<Rightarrow>
             let current_speed = 0;
                 g1 = g\<lparr>LOST_LINE_COUNTER := LOST_LINE_COUNTER g + 1\<rparr>;
                 turn_angle = search_turn (LOST_LINE_COUNTER g1);
                 g2 = (if any_sensor_on_line
                       then g1\<lparr>ROBOT_MODE := FOLLOW_LINE, LOST_LINE_COUNTER := 0\<rparr> else g1)
             in if LOST_LINE_COUNTER g2 > MAX_LOST_TIME_FRAMES then Inl SystemExit
                else Inr (g2, turn_angle, current_speed))"

subsection \<open>The track surface and the sensors\<close>

text \<open>
  The window surface is \<open>WIDTH\<close> by \<open>HEIGHT\<close> pixels; its content is a function from pixel
  coordinates to colours. pygame's \<open>Surface.get_at\<close> raises \<open>IndexError\<close> for a pixel outside
  the surface, and a filled \<open>Rect (l, t, w, h)\<close> covers the pixels with \<open>l \<le> x < l + w\<close> and
  \<open>t \<le> y < t + h\<close>.
\<close>

type_synonym surface = "int \<times> int \<Rightarrow> color"
type_synonym rect = "int \<times> int \<times> int \<times> int"

definition get_at :: "surface \<Rightarrow> int \<times> int \<Rightarrow> py_exception + color" where
  "get_at WIN p =
     (if 0 \<le> fst p \<and> fst p < WIDTH \<and> 0 \<le> snd p \<and> snd p < HEIGHT then Inr (WIN p)
      else Inl IndexError)"

definition fill :: "color \<Rightarrow> surface" where
  "fill c = (\<lambda>p. c)"

fun draw_rect :: "surface \<Rightarrow> color \<Rightarrow> rect \<Rightarrow> surface" where
  "draw_rect WIN c (l, t, w, h) =
     (\<lambda>p. if l \<le> fst p \<and> fst p < l + w \<and> t \<le> snd p \<and> snd p < t + h then c else WIN p)"

definition draw_track :: "surface \<Rightarrow> surface" where
  "draw_track WIN =
     (let track_thickness = 25;
          outer_rect = (100, 100, 600, 400);
          inner_rect = (100 + track_thickness, 100 + track_thickness,
                        600 - (2 * track_thickness), 400 - (2 * track_thickness))
      in draw_rect (draw_rect WIN BLACK outer_rect) WHITE inner_rect)"

definition get_pixel_color :: "surface \<Rightarrow> real \<Rightarrow> real \<Rightarrow> py_exception + color" where
  "get_pixel_color WIN x y =
     (if 0 \<le> py_int x \<and> py_int x < WIDTH \<and> 0 \<le> py_int y \<and> py_int y < HEIGHT
      then get_at WIN (py_int x, py_int y)
      else Inr WHITE)"

fun is_on_line :: "color \<Rightarrow> color \<Rightarrow> int \<Rightarrow> bool" where
  "is_on_line (r, g, b) (lr, lg, lb) tolerance =
     (let r_diff = \<bar>r - lr\<bar>;
          g_diff = \<bar>g - lg\<bar>;
          b_diff = \<bar>b - lb\<bar>
      in r_diff < tolerance \<and> g_diff < tolerance \<and> b_diff < tolerance)"

type_synonym sensor_positions = "sensor_name \<Rightarrow> real \<times> real"

definition calculate_sensor_positions :: "real \<Rightarrow> real \<Rightarrow> real \<Rightarrow> sensor_positions" where
  "calculate_sensor_positions robot_x robot_y robot_angle =
     (let c = (robot_x + cos (radians robot_angle) * sensor_forward_distance,
               robot_y + sin (radians robot_angle) * sensor_forward_distance)
      in (\<lambda>name. case name of
            center \<Rightarrow> c
          | left \<Rightarrow> (fst c + cos (radians (robot_angle - 90)) * sensor_lateral_offset,
                     snd c + sin (radians (robot_angle - 90)) * sensor_lateral_offset)
          | right \<Rightarrow> (fst c + cos (radians (robot_angle + 90)) * sensor_lateral_offset,
                      snd c + sin (radians (robot_angle + 90)) * sensor_lateral_offset)
          | left_forward \<Rightarrow>
              (robot_x + cos (radians (robot_angle + 45)) * sensor_forward_distance * 1.5,
               robot_y + sin (radians (robot_angle + 45)) * sensor_forward_distance * 1.5)
          | right_forward \<Rightarrow>
              (robot_x + cos (radians (robot_angle - 45)) * sensor_forward_distance * 1.5,
               robot_y + sin (radians (robot_angle - 45)) * sensor_forward_distance * 1.5)))"

text \<open>
  \<open>sense_line\<close>: the loop over the five keys, writing one reading per key; an exception of
  \<open>get_pixel_color\<close> would leave the loop. The dictionary of readings always has exactly the five
  keys, so it is a total function on \<open>sensor_name\<close>.
\<close>

fun sense_loop ::
    "surface \<Rightarrow> sensor_positions \<Rightarrow> sensor_name list \<Rightarrow> sensor_states
       \<Rightarrow> py_exception + sensor_states" where
  "sense_loop WIN sensor_positions [] states = Inr states"
| "sense_loop WIN sensor_positions (name # names) states =
     (case get_pixel_color WIN (fst (sensor_positions name)) (snd (sensor_positions name)) of
        Inl e \<Rightarrow> Inl e
      | Inr color \<Rightarrow>
          sense_loop WIN sensor_positions names (states(name := is_on_line color BLACK 80)))"

definition sense_line :: "surface \<Rightarrow> sensor_positions \<Rightarrow> py_exception + sensor_states" where
  "sense_line WIN sensor_positions = sense_loop WIN sensor_positions sensor_names (\<lambda>name. False)"

subsection \<open>The main loop\<close>

record robot =
  robot_pos :: "real \<times> real"
  robot_angle :: real
  controller :: globals

text \<open>Steps 4 and 5 of the loop body: the new angle, the new position, the position clamped.\<close>

definition update_robot :: "real \<times> real \<Rightarrow> real \<Rightarrow> real \<Rightarrow> real \<Rightarrow> (real \<times> real) \<times> real" where
  "update_robot pos angle turn speed =
     (let angle = py_mod (round_double (angle + turn)) 360;
          x = fst pos + cos (radians angle) * speed;
          y = snd pos + sin (radians angle) * speed;
          x = max 0 (min (of_int (WIDTH - 1)) x);
          y = max 0 (min (of_int (HEIGHT - 1)) y)
      in ((x, y), angle))"

text \<open>One iteration of the loop: clear and draw, sense, decide, update.\<close>

definition main_loop_body :: "robot \<Rightarrow> py_exception + robot" where
  "main_loop_body s =
     (let WIN = draw_track (fill WHITE);
          current_sensor_positions =
            calculate_sensor_positions (fst (robot_pos s)) (snd (robot_pos s)) (robot_angle s)
      in case sense_line WIN current_sensor_positions of
           Inl e \<Rightarrow> Inl e
         | Inr current_sensor_states \<Rightarrow>
             (case decide_robot_action (controller s) current_sensor_states of
                Inl e \<Rightarrow> Inl e
              | Inr (g, turn, speed) \<Rightarrow>
                  (case update_robot (robot_pos s) (robot_angle s) turn speed of
                     (pos, angle) \<Rightarrow>
                       Inr (s\<lparr>robot_pos := pos, robot_angle := angle, controller := g\<rparr>))))"

text \<open>
  The loop, on the frames' event queues: a frame either has a \<open>QUIT\<close> event or not. A \<open>QUIT\<close>
  event clears \<open>running\<close>, the body still runs to its end, and the loop is left. An exception
  leaves the loop at once. When the list of frames is used up, the state reached is returned.
\<close>

fun main_loop :: "bool list \<Rightarrow> robot \<Rightarrow> py_exception + robot" where
  "main_loop [] s = Inr s"
| "main_loop (quit # events) s =
     (case main_loop_body s of
        Inl e \<Rightarrow> Inl e
      | Inr s' \<Rightarrow> if quit then Inr s' else main_loop events s')"

text \<open>
  The decision function called once per tick on a given sequence of sensor readings, as the
  main loop calls it: the commands it returns are collected, and an exception ends the run.
\<close>

fun decide_run ::
    "globals \<Rightarrow> sensor_states list \<Rightarrow> py_exception + (globals \<times> (real \<times> real) list)" where
  "decide_run g [] = Inr (g, [])"
| "decide_run g (st # sts) =
     (case decide_robot_action g st of
        Inl e \<Rightarrow> Inl e
      | Inr (g', cmd) \<Rightarrow>
          (case decide_run g' sts of
             Inl e \<Rightarrow> Inl e
           | Inr (g'', cmds) \<Rightarrow> Inr (g'', cmd # cmds)))"

text \<open>The globals as the module initialises them.\<close>

definition initial_globals :: globals where
  "initial_globals = \<lparr>ROBOT_MODE = FOLLOW_LINE, LOST_LINE_COUNTER = 0\<rparr>"

text \<open>The states of the globals that some sequence of calls from the initial ones leads to.\<close>

inductive reachable :: "globals \<Rightarrow> bool" where
  reachable_init: "reachable initial_globals"
| reachable_step: "reachable g \<Longrightarrow> decide_robot_action g st = Inr (g', cmd) \<Longrightarrow> reachable g'"

text \<open>The dictionary of readings in which exactly the listed sensors are on.\<close>

definition readings :: "sensor_name list \<Rightarrow> sensor_states" where
  "readings active = (\<lambda>name. name \<in> set active)"

subsection \<open>The priority rules as the specification lists them\<close>

text \<open>
  The specification gives the centre-off case as a numbered list of rules, each a condition on
  the readings with a turn, of which the first that matches is taken, and the weighted sum
  clamped to three times the turn rate when none matches. This definition follows that wording;
  it is compared with \<open>center_off_turn\<close> below.
\<close>

definition priority_rules :: "((sensor_states \<Rightarrow> bool) \<times> real) list" where
  "priority_rules =
     [(\<lambda>st. st left \<and> \<not> st right, - 1.5 * TURN_RATE),
      (\<lambda>st. st right \<and> \<not> st left, 1.5 * TURN_RATE),
      (\<lambda>st. st left_forward \<and> \<not> st right_forward, - 2 * TURN_RATE),
      (\<lambda>st. st right_forward \<and> \<not> st left_forward, 2 * TURN_RATE)]"

definition first_matching_rule :: "sensor_states \<Rightarrow> real" where
  "first_matching_rule st =
     (case find (\<lambda>rule. fst rule st) priority_rules of
        Some rule \<Rightarrow> snd rule
      | None \<Rightarrow>
          max (- 3 * TURN_RATE)
            (min (3 * TURN_RATE) ((\<Sum>s \<in> {s. st s}. SENSOR_WEIGHTS s) * TURN_RATE)))"

section \<open>Properties\<close>

subsection \<open>Arithmetic and the sensor set\<close>


lemma floor_log2_bounds:
  assumes "x \<noteq> 0"
  shows "2 powi \<lfloor>log 2 \<bar>x\<bar>\<rfloor> \<le> \<bar>x\<bar> \<and> \<bar>x\<bar> < 2 powi (\<lfloor>log 2 \<bar>x\<bar>\<rfloor> + 1)"
proof -
  have pos: "0 < \<bar>x\<bar>" using assms by simp
  define e where "e = \<lfloor>log 2 \<bar>x\<bar>\<rfloor>"
  have "(2::real) powr of_int e = 2 powi e" "(2::real) powr (of_int e + 1) = 2 powi (e + 1)"
    using powr_real_of_int' [of 2 e] powr_real_of_int' [of 2 "e + 1"] by simp_all
  then show ?thesis
    using floor_log_eq_powr_iff [OF pos, of 2 e] e_def by simp
qed

lemma round_half_even_of_int: "round_half_even (of_int n) = n"
  by (simp add: round_half_even_def)

lemma round_double_of_int:
  assumes "\<bar>n\<bar> < 2 ^ 53"
  shows "round_double (of_int n) = of_int n"
proof (cases "n = 0")
  case True
  then show ?thesis by (simp add: round_double_def)
next
  case False
  define x :: real where "x = of_int n"
  define e where "e = \<lfloor>log 2 \<bar>x\<bar>\<rfloor>"
  have x0: "x \<noteq> 0" using False by (simp add: x_def)
  have b: "2 powi e \<le> \<bar>x\<bar>" "\<bar>x\<bar> < 2 powi (e + 1)"
    using floor_log2_bounds [OF x0] by (simp_all add: e_def)
  have "1 \<le> \<bar>x\<bar>" using False by (simp add: x_def)
  have e0: "0 \<le> e"
  proof (rule ccontr)
    assume "\<not> 0 \<le> e"
    then have "e + 1 \<le> 0" by simp
    then have "(2::real) powi (e + 1) \<le> 2 powi 0"
      by (intro power_int_increasing) simp_all
    then show False using b(2) \<open>1 \<le> \<bar>x\<bar>\<close> by simp
  qed
  have "\<bar>x\<bar> < 2 ^ 53"
    using assms unfolding x_def by (metis of_int_abs of_int_less_numeral_power_cancel_iff)
  then have "(2::real) powi e < 2 powi 53" using b(1) by simp
  have e52: "e \<le> 52"
  proof (rule ccontr)
    assume "\<not> e \<le> 52"
    then have "53 \<le> e" by simp
    then have "(2::real) powi 53 \<le> 2 powi e"
      by (intro power_int_increasing) simp_all
    then show False using \<open>(2::real) powi e < 2 powi 53\<close> by simp
  qed
  define k where "k = nat (52 - e)"
  have q: "(2::real) powi (e - 52) = 1 / 2 ^ k"
    using e52 by (simp add: k_def power_int_def field_simps)
  have "x / (1 / 2 ^ k) = of_int (n * 2 ^ k)"
    by (simp add: x_def)
  then have "round_half_even (x / (1 / 2 ^ k)) = n * 2 ^ k"
    using round_half_even_of_int by metis
  then have "round_double x = (1 / 2 ^ k) * of_int (n * 2 ^ k)"
    using x0 e0 q by (simp add: round_double_def Let_def e_def [symmetric] max_def)
  also have "\<dots> = x" by (simp add: x_def)
  finally show ?thesis by (simp add: x_def)
qed





lemma fmod_of_int:
  assumes "0 < n"
  shows "fmod (of_int c) (of_int n) = of_int (if 0 \<le> c then c mod n else - ((- c) mod n))"
proof (cases "0 \<le> c")
  case True
  then have "0 \<le> (of_int c :: real) / of_int n"
    using assms by simp
  then have "py_int (of_int c / of_int n) = c div n"
    by (simp add: py_int_def floor_divide_of_int_eq)
  then have "fmod (of_int c) (of_int n) = of_int (c - n * (c div n))"
    by (simp add: fmod_def)
  also have "c - n * (c div n) = c mod n"
    by (simp add: minus_mult_div_eq_mod)
  finally show ?thesis using True by simp
next
  case False
  then have "\<not> 0 \<le> (of_int c :: real) / of_int n"
    using assms by (simp add: zero_le_divide_iff)
  then have "py_int (of_int c / of_int n) = \<lceil>(of_int c :: real) / of_int n\<rceil>"
    by (simp add: py_int_def)
  also have "\<dots> = - \<lfloor>(of_int (- c) :: real) / of_int n\<rfloor>"
    by (simp add: ceiling_def)
  also have "\<dots> = - ((- c) div n)"
    by (simp only: floor_divide_of_int_eq)
  finally have "fmod (of_int c) (of_int n) = of_int (c + n * ((- c) div n))"
    by (simp add: fmod_def)
  also have "c + n * ((- c) div n) = - ((- c) - n * ((- c) div n))"
    by simp
  also have "(- c) - n * ((- c) div n) = (- c) mod n"
    by (simp add: minus_mult_div_eq_mod)
  finally show ?thesis using False by simp
qed

lemma py_mod_of_int:
  assumes "0 < n" and "n < 2 ^ 53"
  shows "py_mod (of_int c) (of_int n) = of_int (c mod n)"
proof (cases "0 \<le> c")
  case True
  then have "fmod (of_int c) (of_int n) = of_int (c mod n)"
    using fmod_of_int [OF assms(1), of c] by simp
  moreover have "\<not> (of_int (c mod n) :: real) < 0"
    using assms(1) by (simp add: not_less)
  ultimately show ?thesis
    using assms(1) by (simp add: py_mod_def Let_def)
next
  case False
  define r where "r = (- c) mod n"
  have m: "fmod (of_int c) (of_int n) = of_int (- r)"
    using fmod_of_int [OF assms(1), of c] False by (simp add: r_def)
  have r: "0 \<le> r" "r < n"
    using assms(1) by (simp_all add: r_def)
  have cm: "c mod n = (if r = 0 then 0 else n - r)"
    using zmod_zminus1_eq_if [of "- c" n] by (simp add: r_def)
  show ?thesis
  proof (cases "r = 0")
    case True
    then show ?thesis using m cm by (simp add: py_mod_def)
  next
    case False
    have "\<bar>n - r\<bar> < 2 ^ 53"
      using r assms(2) by simp
    then have "round_double (of_int (n - r)) = of_int (n - r)"
      by (rule round_double_of_int)
    then show ?thesis
      using m cm False r assms(1) by (simp add: py_mod_def Let_def)
  qed
qed




lemma search_turn_eq:
  "search_turn c = (if c mod 60 < 30 then 1.5 * TURN_RATE else - (1.5 * TURN_RATE))"
proof -
  have "py_mod (of_int c) (of_int MAX_LOST_TIME_FRAMES / 2) = of_int (c mod 60)"
    using py_mod_of_int [of 60 c] by (simp add: MAX_LOST_TIME_FRAMES_def)
  then show ?thesis
    by (simp add: search_turn_def MAX_LOST_TIME_FRAMES_def)
qed

lemma UNIV_sensor_name: "(UNIV :: sensor_name set) = set sensor_names"
  by (auto simp: sensor_names_def intro: sensor_name.exhaust)

lemma any_sensor_iff: "list_ex st sensor_names \<longleftrightarrow> (\<exists>s. st s)"
  using UNIV_sensor_name by (auto simp: list_ex_iff)

lemma steering_error_sum: "steering_error st = (\<Sum>s \<in> {s. st s}. SENSOR_WEIGHTS s)"
proof -
  have d: "distinct (filter st sensor_names)"
    by (simp add: sensor_names_def)
  have "set (filter st sensor_names) = {s. st s}"
    using UNIV_sensor_name by auto
  then show ?thesis
    unfolding steering_error_def
    using sum_list_distinct_conv_sum_set [OF d, of SENSOR_WEIGHTS] by simp
qed

subsection \<open>The decision function, branch by branch\<close>

lemma decide_follow_center:
  assumes "ROBOT_MODE g = FOLLOW_LINE" and "st center"
  shows "decide_robot_action g st =
           Inr (g\<lparr>LOST_LINE_COUNTER := 0\<rparr>, clamp_turn (steering_error st * TURN_RATE),
                BASE_ROBOT_SPEED)"
  using assms by (auto simp: decide_robot_action_def any_sensor_iff)

lemma decide_follow_center_off:
  assumes "ROBOT_MODE g = FOLLOW_LINE" and "\<not> st center" and "\<exists>s. st s"
  shows "decide_robot_action g st =
           Inr (g\<lparr>LOST_LINE_COUNTER := 0\<rparr>, center_off_turn st, BASE_ROBOT_SPEED)"
  using assms by (auto simp: decide_robot_action_def any_sensor_iff)

lemma decide_follow_lost:
  assumes "ROBOT_MODE g = FOLLOW_LINE" and "\<forall>s. \<not> st s"
  shows "decide_robot_action g st =
           Inr (g\<lparr>ROBOT_MODE := LOST_LINE_SEARCH, LOST_LINE_COUNTER := 0\<rparr>, 0, 0)"
  using assms by (auto simp: decide_robot_action_def any_sensor_iff)

lemma decide_search_found:
  assumes "ROBOT_MODE g = LOST_LINE_SEARCH" and "\<exists>s. st s"
  shows "decide_robot_action g st =
           Inr (g\<lparr>ROBOT_MODE := FOLLOW_LINE, LOST_LINE_COUNTER := 0\<rparr>,
                search_turn (LOST_LINE_COUNTER g + 1), 0)"
  using assms
  by (auto simp: decide_robot_action_def any_sensor_iff Let_def MAX_LOST_TIME_FRAMES_def)

lemma decide_search_off:
  assumes "ROBOT_MODE g = LOST_LINE_SEARCH" and "\<forall>s. \<not> st s"
  shows "decide_robot_action g st =
           (if LOST_LINE_COUNTER g + 1 > MAX_LOST_TIME_FRAMES then Inl SystemExit
            else Inr (g\<lparr>LOST_LINE_COUNTER := LOST_LINE_COUNTER g + 1\<rparr>,
                      search_turn (LOST_LINE_COUNTER g + 1), 0))"
  using assms by (auto simp: decide_robot_action_def any_sensor_iff Let_def)

lemma center_off_turn_first_matching: "center_off_turn st = first_matching_rule st"
  by (simp add: center_off_turn_def first_matching_rule_def priority_rules_def clamp_turn_def
        steering_error_sum mult.commute)

lemma no_readings: "\<forall>s. \<not> readings [] s"
  by (simp add: readings_def)

lemma clamp_turn_bounds: "\<bar>clamp_turn t\<bar> \<le> 3 * TURN_RATE"
  by (auto simp: clamp_turn_def TURN_RATE_def)

lemma search_turn_abs: "\<bar>search_turn c\<bar> = 1.5 * TURN_RATE"
  by (simp add: search_turn_eq TURN_RATE_def)

lemma find_priority_rules:
  "find (\<lambda>rule. fst rule st) priority_rules = Some rule \<Longrightarrow>
     center_off_turn st = snd rule \<and> \<bar>snd rule\<bar> \<le> 2 * TURN_RATE"
  by (auto simp: priority_rules_def center_off_turn_def TURN_RATE_def split: if_splits)

subsection \<open>Runs of the decision function\<close>

lemma upto_from_1: "1 \<le> j \<Longrightarrow> [1..j] = 1 # [2..j]"
  using upto_rec1 [of 1 j] by simp

lemma decide_run_search:
  "c + int n \<le> MAX_LOST_TIME_FRAMES \<Longrightarrow>
   decide_run \<lparr>ROBOT_MODE = LOST_LINE_SEARCH, LOST_LINE_COUNTER = c\<rparr>
     (replicate n (readings [])) =
   Inr (\<lparr>ROBOT_MODE = LOST_LINE_SEARCH, LOST_LINE_COUNTER = c + int n\<rparr>,
        map (\<lambda>k. (search_turn k, 0)) [c + 1..c + int n])"
proof (induction n arbitrary: c)
  case 0
  then show ?case by simp
next
  case (Suc n)
  have "c + 1 \<le> MAX_LOST_TIME_FRAMES"
    using Suc.prems by simp
  then have d:
    "decide_robot_action \<lparr>ROBOT_MODE = LOST_LINE_SEARCH, LOST_LINE_COUNTER = c\<rparr> (readings []) =
       Inr (\<lparr>ROBOT_MODE = LOST_LINE_SEARCH, LOST_LINE_COUNTER = c + 1\<rparr>, search_turn (c + 1), 0)"
    using decide_search_off
            [of "\<lparr>ROBOT_MODE = LOST_LINE_SEARCH, LOST_LINE_COUNTER = c\<rparr>" "readings []"]
          no_readings
    by simp
  have "(c + 1) + int n \<le> MAX_LOST_TIME_FRAMES"
    using Suc.prems by simp
  note ih = Suc.IH [OF this]
  have m: "[c + 1..c + 1 + int n] = (c + 1) # [c + 1 + 1..c + 1 + int n]"
    by (rule upto_rec1) simp
  have "decide_run \<lparr>ROBOT_MODE = LOST_LINE_SEARCH, LOST_LINE_COUNTER = c\<rparr>
          (replicate (Suc n) (readings [])) =
        Inr (\<lparr>ROBOT_MODE = LOST_LINE_SEARCH, LOST_LINE_COUNTER = c + 1 + int n\<rparr>,
             (search_turn (c + 1), 0) #
             map (\<lambda>k. (search_turn k, 0)) [c + 1 + 1..c + 1 + int n])"
    by (simp only: replicate_Suc decide_run.simps d ih sum.case prod.case)
  also have "(search_turn (c + 1), 0::real) #
               map (\<lambda>k. (search_turn k, 0)) [c + 1 + 1..c + 1 + int n] =
             map (\<lambda>k. (search_turn k, 0)) [c + 1..c + 1 + int n]"
    by (subst m) simp
  also have "c + 1 + int n = c + int (Suc n)"
    by simp
  finally show ?case .
qed

lemma decide_run_append:
  assumes "decide_run g sts = Inr (g', cmds)"
  shows "decide_run g (sts @ rest) =
           (case decide_run g' rest of
              Inl e \<Rightarrow> Inl e
            | Inr (g'', cmds') \<Rightarrow> Inr (g'', cmds @ cmds'))"
  using assms
proof (induction sts arbitrary: g cmds)
  case Nil
  then show ?case by (auto split: sum.splits)
next
  case (Cons st sts)
  then show ?case by (auto split: sum.splits prod.splits)
qed

lemma decide_run_timeout:
  assumes "MAX_LOST_TIME_FRAMES < int n"
  shows "decide_run \<lparr>ROBOT_MODE = LOST_LINE_SEARCH, LOST_LINE_COUNTER = 0\<rparr>
           (replicate n (readings [])) = Inl SystemExit"
proof -
  define m where "m = n - 121"
  have n: "n = 120 + Suc m"
    using assms by (simp add: m_def MAX_LOST_TIME_FRAMES_def)
  have "0 + int 120 \<le> MAX_LOST_TIME_FRAMES"
    by (simp add: MAX_LOST_TIME_FRAMES_def)
  from decide_run_search [OF this]
  obtain cmds where 1:
    "decide_run \<lparr>ROBOT_MODE = LOST_LINE_SEARCH, LOST_LINE_COUNTER = 0\<rparr>
       (replicate 120 (readings [])) =
     Inr (\<lparr>ROBOT_MODE = LOST_LINE_SEARCH, LOST_LINE_COUNTER = 120\<rparr>, cmds)"
    by simp
  have 2:
    "decide_robot_action \<lparr>ROBOT_MODE = LOST_LINE_SEARCH, LOST_LINE_COUNTER = 120\<rparr> (readings [])
       = Inl SystemExit"
    using decide_search_off
            [of "\<lparr>ROBOT_MODE = LOST_LINE_SEARCH, LOST_LINE_COUNTER = 120\<rparr>" "readings []"]
          no_readings
    by (simp add: MAX_LOST_TIME_FRAMES_def)
  have "replicate n (readings []) = replicate 120 (readings []) @ replicate (Suc m) (readings [])"
    unfolding n by (rule replicate_add)
  then show ?thesis
    using decide_run_append [OF 1, of "replicate (Suc m) (readings [])"] 2 by simp
qed

subsection \<open>Sampling the surface\<close>

lemma get_pixel_color_outside:
  "\<not> (0 \<le> py_int x \<and> py_int x < WIDTH \<and> 0 \<le> py_int y \<and> py_int y < HEIGHT) \<Longrightarrow>
     get_pixel_color WIN x y = Inr WHITE"
  by (auto simp: get_pixel_color_def)

lemma get_pixel_color_inside:
  "0 \<le> py_int x \<and> py_int x < WIDTH \<and> 0 \<le> py_int y \<and> py_int y < HEIGHT \<Longrightarrow>
     get_pixel_color WIN x y = Inr (WIN (py_int x, py_int y))"
  by (simp add: get_pixel_color_def get_at_def)

lemma get_pixel_color_total: "\<exists>c. get_pixel_color WIN x y = Inr c"
  using get_pixel_color_inside [of x y WIN] get_pixel_color_outside [of x y WIN] by blast

lemma WHITE_not_on_line: "\<not> is_on_line WHITE BLACK 80"
  by (simp add: WHITE_def BLACK_def)

lemma sense_loop_result:
  "\<exists>states'. sense_loop WIN pos names states = Inr states' \<and>
     (\<forall>name. states' name =
        (if name \<in> set names
         then (\<exists>c. get_pixel_color WIN (fst (pos name)) (snd (pos name)) = Inr c \<and>
                   is_on_line c BLACK 80)
         else states name))"
proof (induction names arbitrary: states)
  case Nil
  then show ?case by simp
next
  case (Cons name names)
  obtain c where c: "get_pixel_color WIN (fst (pos name)) (snd (pos name)) = Inr c"
    using get_pixel_color_total by blast
  from Cons.IH [of "states(name := is_on_line c BLACK 80)"]
  obtain states' where
    s: "sense_loop WIN pos names (states(name := is_on_line c BLACK 80)) = Inr states'"
    and r: "\<forall>n. states' n =
        (if n \<in> set names
         then (\<exists>c. get_pixel_color WIN (fst (pos n)) (snd (pos n)) = Inr c \<and>
                   is_on_line c BLACK 80)
         else (states(name := is_on_line c BLACK 80)) n)"
    by blast
  have "sense_loop WIN pos (name # names) states = Inr states'"
    using c s by simp
  moreover have "states' n =
        (if n \<in> set (name # names)
         then (\<exists>c. get_pixel_color WIN (fst (pos n)) (snd (pos n)) = Inr c \<and>
                   is_on_line c BLACK 80)
         else states n)" for n
    using r c by (cases "n = name") auto
  ultimately show ?case by blast
qed

lemma sense_line_result:
  "\<exists>states. sense_line WIN pos = Inr states \<and>
     (\<forall>name. states name \<longleftrightarrow>
        (\<exists>c. get_pixel_color WIN (fst (pos name)) (snd (pos name)) = Inr c \<and>
             is_on_line c BLACK 80))"
  using sense_loop_result [of WIN pos sensor_names "\<lambda>name. False"] UNIV_sensor_name
  unfolding sense_line_def by auto


lemma py_int_bounds:
  "(x < 0 \<longrightarrow> py_int x \<le> 0) \<and> (0 \<le> x \<longrightarrow> 0 \<le> py_int x) \<and>
   (x < of_int n \<and> 0 \<le> x \<longrightarrow> py_int x < n) \<and> (of_int n \<le> x \<and> 0 \<le> n \<longrightarrow> n \<le> py_int x)"
  by (auto simp: py_int_def floor_less_iff le_floor_iff ceiling_le_iff)



subsection \<open>A robot well inside the inner rectangle sees no line\<close>

lemma track_inner_white:
  assumes "125 \<le> fst p" "fst p < 675" "125 \<le> snd p" "snd p < 475"
  shows "draw_track (fill WHITE) p = WHITE"
  using assms by (auto simp: draw_track_def fill_def)

lemma sensors_near_robot:
  "\<bar>fst (calculate_sensor_positions x y a name) - x\<bar> \<le> 35 \<and>
   \<bar>snd (calculate_sensor_positions x y a name) - y\<bar> \<le> 35"
proof -
  have c: "\<bar>cos t\<bar> \<le> 1" and s: "\<bar>sin t\<bar> \<le> 1" for t :: real
    by (rule abs_cos_le_one, rule abs_sin_le_one)
  have m20: "\<bar>u * 20\<bar> \<le> 20" and m15: "\<bar>u * 15\<bar> \<le> 15" and m30: "\<bar>u * 20 * 1.5\<bar> \<le> 30"
    if "\<bar>u\<bar> \<le> 1" for u :: real
    using that by (simp_all add: abs_mult)
  show ?thesis
  proof (cases name)
    case center
    then show ?thesis
      using m20 [OF c [of "radians a"]] m20 [OF s [of "radians a"]]
      by (simp add: calculate_sensor_positions_def Let_def sensor_forward_distance_def)
  next
    case left
    then show ?thesis
      using m20 [OF c [of "radians a"]] m20 [OF s [of "radians a"]]
        m15 [OF c [of "radians (a - 90)"]] m15 [OF s [of "radians (a - 90)"]]
      by (simp add: calculate_sensor_positions_def Let_def sensor_forward_distance_def
            sensor_lateral_offset_def) (intro conjI; linarith)
  next
    case right
    then show ?thesis
      using m20 [OF c [of "radians a"]] m20 [OF s [of "radians a"]]
        m15 [OF c [of "radians (a + 90)"]] m15 [OF s [of "radians (a + 90)"]]
      by (simp add: calculate_sensor_positions_def Let_def sensor_forward_distance_def
            sensor_lateral_offset_def) (intro conjI; linarith)
  next
    case left_forward
    then show ?thesis
      using m30 [OF c [of "radians (a + 45)"]] m30 [OF s [of "radians (a + 45)"]]
      by (simp add: calculate_sensor_positions_def Let_def sensor_forward_distance_def)
  next
    case right_forward
    then show ?thesis
      using m30 [OF c [of "radians (a - 45)"]] m30 [OF s [of "radians (a - 45)"]]
      by (simp add: calculate_sensor_positions_def Let_def sensor_forward_distance_def)
  qed
qed

lemma get_pixel_color_inner:
  assumes "125 \<le> px" "px < 675" "125 \<le> py" "py < 475"
  shows "get_pixel_color (draw_track (fill WHITE)) px py = Inr WHITE"
proof -
  have x: "125 \<le> py_int px \<and> py_int px < 675"
    using assms py_int_bounds [of px 675] by (simp add: py_int_def le_floor_iff)
  have y: "125 \<le> py_int py \<and> py_int py < 475"
    using assms py_int_bounds [of py 475] by (simp add: py_int_def le_floor_iff)
  have "0 \<le> py_int px \<and> py_int px < WIDTH \<and> 0 \<le> py_int py \<and> py_int py < HEIGHT"
    using x y by (simp add: WIDTH_def HEIGHT_def)
  from get_pixel_color_inside [OF this]
  show ?thesis
    using track_inner_white [of "(py_int px, py_int py)"] x y by simp
qed

lemma sense_line_inside_track:
  assumes "160 \<le> x" "x < 640" "160 \<le> y" "y < 440"
    and "sense_line (draw_track (fill WHITE)) (calculate_sensor_positions x y a) = Inr states"
  shows "\<forall>name. \<not> states name"
proof
  fix name
  let ?p = "calculate_sensor_positions x y a name"
  have "125 \<le> fst ?p \<and> fst ?p < 675 \<and> 125 \<le> snd ?p \<and> snd ?p < 475"
    using sensors_near_robot [of x y a name] assms(1-4) by (simp add: abs_le_iff)
  then have "get_pixel_color (draw_track (fill WHITE)) (fst ?p) (snd ?p) = Inr WHITE"
    using get_pixel_color_inner by blast
  then show "\<not> states name"
    using sense_line_result [of "draw_track (fill WHITE)" "calculate_sensor_positions x y a"]
      assms(5) WHITE_not_on_line by auto
qed

subsection \<open>The loop body\<close>

lemma sense_line_inside_track_eq:
  assumes "160 \<le> x" "x < 640" "160 \<le> y" "y < 440"
  shows "sense_line (draw_track (fill WHITE)) (calculate_sensor_positions x y a) = Inr (readings [])"
proof -
  obtain states where
    s: "sense_line (draw_track (fill WHITE)) (calculate_sensor_positions x y a) = Inr states"
    using sense_line_result by blast
  have "\<forall>name. \<not> states name"
    using sense_line_inside_track [OF assms s] .
  then have "states = readings []"
    by (auto simp: readings_def)
  then show ?thesis
    using s by simp
qed

lemma decide_Inl_iff:
  "decide_robot_action g st = Inl e \<longleftrightarrow>
     e = SystemExit \<and> ROBOT_MODE g = LOST_LINE_SEARCH \<and> (\<forall>s. \<not> st s) \<and>
     MAX_LOST_TIME_FRAMES < LOST_LINE_COUNTER g + 1"
  by (auto simp: decide_robot_action_def any_sensor_iff Let_def MAX_LOST_TIME_FRAMES_def
           split: robot_mode.splits)

lemma main_loop_body_Inl:
  assumes "main_loop_body s = Inl e"
  shows "e = SystemExit \<and> ROBOT_MODE (controller s) = LOST_LINE_SEARCH \<and>
         MAX_LOST_TIME_FRAMES \<le> LOST_LINE_COUNTER (controller s)"
proof -
  let ?pos = "calculate_sensor_positions (fst (robot_pos s)) (snd (robot_pos s)) (robot_angle s)"
  obtain states where st: "sense_line (draw_track (fill WHITE)) ?pos = Inr states"
    using sense_line_result by blast
  have "decide_robot_action (controller s) states = Inl e"
    using assms st by (auto simp: main_loop_body_def Let_def split: sum.splits prod.splits)
  then show ?thesis
    using decide_Inl_iff [of "controller s" states e] by simp
qed

lemma update_robot_stopped:
  assumes "0 \<le> x" "x \<le> 799" "0 \<le> y" "y \<le> 599"
  shows "update_robot (x, y) a turn 0 = ((x, y), py_mod (round_double (a + turn)) 360)"
  using assms by (simp add: update_robot_def Let_def WIDTH_def HEIGHT_def)

lemma main_loop_body_searching_inside_track:
  assumes "160 \<le> x" "x < 640" "160 \<le> y" "y < 440"
  shows "main_loop_body \<lparr>robot_pos = (x, y), robot_angle = a,
            controller = \<lparr>ROBOT_MODE = LOST_LINE_SEARCH, LOST_LINE_COUNTER = c\<rparr>\<rparr> =
         (if MAX_LOST_TIME_FRAMES < c + 1 then Inl SystemExit
          else Inr \<lparr>robot_pos = (x, y), robot_angle = py_mod (round_double (a + search_turn (c + 1))) 360,
                 controller = \<lparr>ROBOT_MODE = LOST_LINE_SEARCH, LOST_LINE_COUNTER = c + 1\<rparr>\<rparr>)"
proof -
  have u: "update_robot (x, y) a turn 0 = ((x, y), py_mod (round_double (a + turn)) 360)" for turn
    using assms by (intro update_robot_stopped) simp_all
  show ?thesis
    using sense_line_inside_track_eq [OF assms, of a]
      decide_search_off [of "\<lparr>ROBOT_MODE = LOST_LINE_SEARCH, LOST_LINE_COUNTER = c\<rparr>" "readings []"]
      no_readings
    by (simp add: main_loop_body_def u)
qed

lemma main_loop_searching_inside_track:
  assumes "160 \<le> x" "x < 640" "160 \<le> y" "y < 440"
  shows "c + int n \<le> MAX_LOST_TIME_FRAMES \<Longrightarrow>
         \<exists>a'. main_loop (replicate n False) \<lparr>robot_pos = (x, y), robot_angle = a,
            controller = \<lparr>ROBOT_MODE = LOST_LINE_SEARCH, LOST_LINE_COUNTER = c\<rparr>\<rparr> =
          Inr \<lparr>robot_pos = (x, y), robot_angle = a',
                 controller = \<lparr>ROBOT_MODE = LOST_LINE_SEARCH, LOST_LINE_COUNTER = c + int n\<rparr>\<rparr>"
proof (induction n arbitrary: a c)
  case 0
  then show ?case by simp
next
  case (Suc n)
  have 1: "\<not> MAX_LOST_TIME_FRAMES < c + 1"
    using Suc.prems by simp
  have "c + 1 + int n \<le> MAX_LOST_TIME_FRAMES"
    using Suc.prems by simp
  from Suc.IH [OF this, of "py_mod (round_double (a + search_turn (c + 1))) 360"]
  obtain a' where "main_loop (replicate n False)
        \<lparr>robot_pos = (x, y), robot_angle = py_mod (round_double (a + search_turn (c + 1))) 360,
           controller = \<lparr>ROBOT_MODE = LOST_LINE_SEARCH, LOST_LINE_COUNTER = c + 1\<rparr>\<rparr> =
       Inr \<lparr>robot_pos = (x, y), robot_angle = a',
              controller = \<lparr>ROBOT_MODE = LOST_LINE_SEARCH, LOST_LINE_COUNTER = c + 1 + int n\<rparr>\<rparr>"
    by blast
  then show ?case
    using main_loop_body_searching_inside_track [OF assms, of a c] 1
    by (simp add: add.assoc)
qed

lemma main_loop_append:
  "main_loop (replicate n False @ rest) s =
     (case main_loop (replicate n False) s of Inl e \<Rightarrow> Inl e | Inr s' \<Rightarrow> main_loop rest s')"
  by (induction n arbitrary: s) (auto split: sum.splits)

lemma main_loop_timeout_inside_track:
  assumes "160 \<le> x" "x < 640" "160 \<le> y" "y < 440" and "MAX_LOST_TIME_FRAMES < int n"
  shows "main_loop (replicate n False)
           \<lparr>robot_pos = (x, y), robot_angle = a,
              controller = \<lparr>ROBOT_MODE = LOST_LINE_SEARCH, LOST_LINE_COUNTER = 0\<rparr>\<rparr> =
         Inl SystemExit"
proof -
  define m where "m = n - 121"
  have n: "n = 120 + Suc m"
    using assms(5) by (simp add: m_def MAX_LOST_TIME_FRAMES_def)
  have "0 + int 120 \<le> MAX_LOST_TIME_FRAMES"
    by (simp add: MAX_LOST_TIME_FRAMES_def)
  from main_loop_searching_inside_track [OF assms(1-4) this, of a]
  obtain a' where 1:
    "main_loop (replicate 120 False)
       \<lparr>robot_pos = (x, y), robot_angle = a,
          controller = \<lparr>ROBOT_MODE = LOST_LINE_SEARCH, LOST_LINE_COUNTER = 0\<rparr>\<rparr> =
     Inr \<lparr>robot_pos = (x, y), robot_angle = a',
            controller = \<lparr>ROBOT_MODE = LOST_LINE_SEARCH, LOST_LINE_COUNTER = 120\<rparr>\<rparr>"
    by auto
  have 2: "main_loop_body
       \<lparr>robot_pos = (x, y), robot_angle = a',
          controller = \<lparr>ROBOT_MODE = LOST_LINE_SEARCH, LOST_LINE_COUNTER = 120\<rparr>\<rparr> = Inl SystemExit"
    using main_loop_body_searching_inside_track [OF assms(1-4), of a' 120]
    by (simp add: MAX_LOST_TIME_FRAMES_def)
  have "replicate n False = replicate 120 False @ replicate (Suc m) False"
    unfolding n by (rule replicate_add)
  then show ?thesis
    using main_loop_append [of 120 "replicate (Suc m) False"] 1 2 by simp
qed

subsection \<open>The turns are whole numbers of degrees\<close>

text \<open>
  Every turn the decision function returns is an integer, so from the initial angle 0 every
  angle the loop computes is an integer that a float holds exactly.
\<close>

lemma steering_error_int: "steering_error st \<in> \<int>"
proof -
  have "SENSOR_WEIGHTS s \<in> \<int>" for s
    by (cases s) simp_all
  then have "sum_list (map SENSOR_WEIGHTS xs) \<in> \<int>" for xs
    by (induction xs) simp_all
  then show ?thesis
    by (simp add: steering_error_def)
qed

lemma clamp_turn_int: "t \<in> \<int> \<Longrightarrow> clamp_turn t \<in> \<int>"
  by (simp add: clamp_turn_def TURN_RATE_def max_def min_def)

lemma decide_turn_int:
  assumes "decide_robot_action g st = Inr (g', turn, speed)"
  shows "turn \<in> \<int>"
proof -
  have c: "clamp_turn (steering_error st * TURN_RATE) \<in> \<int>"
    using steering_error_int [of st] by (intro clamp_turn_int) (simp add: TURN_RATE_def)
  have s: "search_turn k \<in> \<int>" for k
    by (simp add: search_turn_eq TURN_RATE_def)
  have o: "center_off_turn st \<in> \<int>"
    using c by (simp add: center_off_turn_def TURN_RATE_def)
  show ?thesis
    using assms c s o
    by (auto simp: decide_robot_action_def Let_def split: robot_mode.splits if_splits)
qed


lemma reachable_counter_bounds:
  assumes "reachable g"
  shows "0 \<le> LOST_LINE_COUNTER g \<and> LOST_LINE_COUNTER g \<le> MAX_LOST_TIME_FRAMES"
  using assms
proof (induction rule: reachable.induct)
  case reachable_init
  then show ?case by (simp add: initial_globals_def MAX_LOST_TIME_FRAMES_def)
next
  case (reachable_step g st g' cmd)
  then show ?case
    by (auto simp: decide_robot_action_def Let_def MAX_LOST_TIME_FRAMES_def
             split: robot_mode.splits if_splits)
qed

section \<open>The claims\<close>

subsection \<open>The search sweep\<close>

text \<open>
  Claim C1, as the code has it. On every tick that starts in \<open>LOST_LINE_SEARCH\<close> the speed
  returned is 0, and the turn is \<open>1.5 * TURN_RATE\<close> exactly when the counter as incremented on
  that tick, that is its value at the start of the tick plus one, is below 30 modulo 60, and
  \<open>- 1.5 * TURN_RATE\<close> otherwise. A run of searching ticks starts with the counter at 0, so its
  ticks test the values 1, 2, 3 and so on: the turn is positive for the values 1 to 29, negative
  for 30 to 59, positive for 60 to 89, with period 60.
\<close>

theorem search_sweep_on_incremented_counter:
  "(ROBOT_MODE g = LOST_LINE_SEARCH \<and> decide_robot_action g st = Inr (g', turn, speed) \<longrightarrow>
      speed = 0 \<and>
      turn = (if (LOST_LINE_COUNTER g + 1) mod 60 < 30 then 1.5 * TURN_RATE
              else - (1.5 * TURN_RATE)))
   \<and> (int n \<le> MAX_LOST_TIME_FRAMES \<longrightarrow>
        decide_run \<lparr>ROBOT_MODE = LOST_LINE_SEARCH, LOST_LINE_COUNTER = 0\<rparr>
          (replicate n (readings [])) =
        Inr (\<lparr>ROBOT_MODE = LOST_LINE_SEARCH, LOST_LINE_COUNTER = int n\<rparr>,
             map (\<lambda>k. (if k mod 60 < 30 then 1.5 * TURN_RATE else - (1.5 * TURN_RATE), 0))
               [1..int n]))"
proof -
  have a: "speed = 0 \<and> turn = search_turn (LOST_LINE_COUNTER g + 1)"
    if "ROBOT_MODE g = LOST_LINE_SEARCH \<and> decide_robot_action g st = Inr (g', turn, speed)"
    using that decide_search_found [of g st] decide_search_off [of g st]
    by (cases "\<exists>s. st s") (auto split: if_splits)
  have b: "decide_run \<lparr>ROBOT_MODE = LOST_LINE_SEARCH, LOST_LINE_COUNTER = 0\<rparr>
             (replicate n (readings [])) =
           Inr (\<lparr>ROBOT_MODE = LOST_LINE_SEARCH, LOST_LINE_COUNTER = int n\<rparr>,
                map (\<lambda>k. (search_turn k, 0)) [1..int n])"
    if "int n \<le> MAX_LOST_TIME_FRAMES"
    using decide_run_search [of 0 n] that by simp
  show ?thesis
    using a b unfolding search_turn_eq by blast
qed

theorem search_sweep_on_incremented_counter_witness:
  "ROBOT_MODE \<lparr>ROBOT_MODE = LOST_LINE_SEARCH, LOST_LINE_COUNTER = 29\<rparr> = LOST_LINE_SEARCH
   \<and> decide_robot_action \<lparr>ROBOT_MODE = LOST_LINE_SEARCH, LOST_LINE_COUNTER = 29\<rparr> (readings []) =
       Inr (\<lparr>ROBOT_MODE = LOST_LINE_SEARCH, LOST_LINE_COUNTER = 30\<rparr>, - 3, 0)
   \<and> (- 3 :: real) = - (1.5 * TURN_RATE)
   \<and> decide_run \<lparr>ROBOT_MODE = LOST_LINE_SEARCH, LOST_LINE_COUNTER = 0\<rparr>
        (replicate 2 (readings [])) =
      Inr (\<lparr>ROBOT_MODE = LOST_LINE_SEARCH, LOST_LINE_COUNTER = 2\<rparr>,
           [(1.5 * TURN_RATE, 0), (1.5 * TURN_RATE, 0)])"
proof -
  have d:
    "decide_robot_action \<lparr>ROBOT_MODE = LOST_LINE_SEARCH, LOST_LINE_COUNTER = 29\<rparr> (readings []) =
       Inr (\<lparr>ROBOT_MODE = LOST_LINE_SEARCH, LOST_LINE_COUNTER = 30\<rparr>, - 3, 0)"
    using decide_search_off
            [of "\<lparr>ROBOT_MODE = LOST_LINE_SEARCH, LOST_LINE_COUNTER = 29\<rparr>" "readings []"]
          no_readings
    by (simp add: search_turn_eq MAX_LOST_TIME_FRAMES_def TURN_RATE_def)
  show ?thesis
    using search_sweep_on_incremented_counter
            [of "\<lparr>ROBOT_MODE = LOST_LINE_SEARCH, LOST_LINE_COUNTER = 29\<rparr>" "readings []"
                "\<lparr>ROBOT_MODE = LOST_LINE_SEARCH, LOST_LINE_COUNTER = 30\<rparr>" "- 3" 0 2]
          d
    by (simp add: MAX_LOST_TIME_FRAMES_def TURN_RATE_def upto_from_1)
qed

text \<open>
  Claim C1 as stated has the turn at \<open>1.5 * TURN_RATE\<close> on the search ticks 0 to 29 of a run.
  Thirty searching ticks with no sensor on, from the counter at 0: the first twenty-nine return
  \<open>1.5 * TURN_RATE\<close> and the thirtieth, the tick numbered 29, which starts with the counter at
  29, returns \<open>- 1.5 * TURN_RATE\<close>.
\<close>

theorem search_sweep_counterexample:
  "decide_run \<lparr>ROBOT_MODE = LOST_LINE_SEARCH, LOST_LINE_COUNTER = 0\<rparr>
     (replicate 30 (readings [])) =
   Inr (\<lparr>ROBOT_MODE = LOST_LINE_SEARCH, LOST_LINE_COUNTER = 30\<rparr>,
        replicate 29 (1.5 * TURN_RATE, 0) @ [(- (1.5 * TURN_RATE), 0)])
   \<and> decide_robot_action \<lparr>ROBOT_MODE = LOST_LINE_SEARCH, LOST_LINE_COUNTER = 29\<rparr> (readings []) =
       Inr (\<lparr>ROBOT_MODE = LOST_LINE_SEARCH, LOST_LINE_COUNTER = 30\<rparr>, - (1.5 * TURN_RATE), 0)
   \<and> - (1.5 * TURN_RATE) \<noteq> 1.5 * TURN_RATE"
proof -
  have 1: "decide_run \<lparr>ROBOT_MODE = LOST_LINE_SEARCH, LOST_LINE_COUNTER = 0\<rparr>
             (replicate 30 (readings [])) =
           Inr (\<lparr>ROBOT_MODE = LOST_LINE_SEARCH, LOST_LINE_COUNTER = 30\<rparr>,
                map (\<lambda>k. (search_turn k, 0)) [1..30])"
    using decide_run_search [of 0 30] by (simp add: MAX_LOST_TIME_FRAMES_def)
  have 2: "map (\<lambda>k. (search_turn k, 0::real)) [1..30] =
           replicate 29 (1.5 * TURN_RATE, 0) @ [(- (1.5 * TURN_RATE), 0)]"
    by (simp add: search_turn_eq upto_from_1 eval_nat_numeral)
  have 3:
    "decide_robot_action \<lparr>ROBOT_MODE = LOST_LINE_SEARCH, LOST_LINE_COUNTER = 29\<rparr> (readings []) =
       Inr (\<lparr>ROBOT_MODE = LOST_LINE_SEARCH, LOST_LINE_COUNTER = 30\<rparr>, - (1.5 * TURN_RATE), 0)"
    using decide_search_off
            [of "\<lparr>ROBOT_MODE = LOST_LINE_SEARCH, LOST_LINE_COUNTER = 29\<rparr>" "readings []"]
          no_readings
    by (simp add: search_turn_eq MAX_LOST_TIME_FRAMES_def)
  show ?thesis
    unfolding 1 2 3 by (simp add: TURN_RATE_def)
qed

subsection \<open>The search timeout\<close>

text \<open>
  Claim C2. A call in \<open>FOLLOW_LINE\<close> with no sensor on enters \<open>LOST_LINE_SEARCH\<close> with the
  counter at 0. From there, with no sensor on at any tick, \<open>n\<close> further calls return normally
  and leave the counter at \<open>n\<close> as long as \<open>n\<close> is at most 120, and the run ends in \<open>SystemExit\<close>
  as soon as \<open>n\<close> exceeds 120: the 121st searching call is the first that exits. A searching
  call with some sensor on returns to \<open>FOLLOW_LINE\<close> with the counter at 0, whatever the counter
  was. In the main loop the exit ends the simulation: a robot that searches from a position
  well inside the inner rectangle of the track, where no sensor can reach the line, is still
  running after 120 frames and has exited at the 121st.
\<close>

theorem search_aborts_after_timeout:
  "(ROBOT_MODE g = FOLLOW_LINE \<longrightarrow>
      decide_robot_action g (readings []) =
        Inr (\<lparr>ROBOT_MODE = LOST_LINE_SEARCH, LOST_LINE_COUNTER = 0\<rparr>, 0, 0))
   \<and> (int n \<le> MAX_LOST_TIME_FRAMES \<longrightarrow>
        (\<exists>cmds. decide_run \<lparr>ROBOT_MODE = LOST_LINE_SEARCH, LOST_LINE_COUNTER = 0\<rparr>
                  (replicate n (readings [])) =
                Inr (\<lparr>ROBOT_MODE = LOST_LINE_SEARCH, LOST_LINE_COUNTER = int n\<rparr>, cmds)))
   \<and> (MAX_LOST_TIME_FRAMES < int n \<longrightarrow>
        decide_run \<lparr>ROBOT_MODE = LOST_LINE_SEARCH, LOST_LINE_COUNTER = 0\<rparr>
          (replicate n (readings [])) = Inl SystemExit)
   \<and> (ROBOT_MODE h = LOST_LINE_SEARCH \<and> (\<exists>s. st s) \<longrightarrow>
        (\<exists>turn speed. decide_robot_action h st =
           Inr (\<lparr>ROBOT_MODE = FOLLOW_LINE, LOST_LINE_COUNTER = 0\<rparr>, turn, speed)))
   \<and> (160 \<le> x \<and> x < 640 \<and> 160 \<le> y \<and> y < 440 \<and> int n \<le> MAX_LOST_TIME_FRAMES \<longrightarrow>
        (\<exists>a'. main_loop (replicate n False)
                 \<lparr>robot_pos = (x, y), robot_angle = a,
                    controller = \<lparr>ROBOT_MODE = LOST_LINE_SEARCH, LOST_LINE_COUNTER = 0\<rparr>\<rparr> =
               Inr \<lparr>robot_pos = (x, y), robot_angle = a',
                      controller =
                        \<lparr>ROBOT_MODE = LOST_LINE_SEARCH, LOST_LINE_COUNTER = int n\<rparr>\<rparr>))
   \<and> (160 \<le> x \<and> x < 640 \<and> 160 \<le> y \<and> y < 440 \<and> MAX_LOST_TIME_FRAMES < int n \<longrightarrow>
        main_loop (replicate n False)
          \<lparr>robot_pos = (x, y), robot_angle = a,
             controller = \<lparr>ROBOT_MODE = LOST_LINE_SEARCH, LOST_LINE_COUNTER = 0\<rparr>\<rparr> =
        Inl SystemExit)"
proof -
  have a: "decide_robot_action g (readings []) =
             Inr (\<lparr>ROBOT_MODE = LOST_LINE_SEARCH, LOST_LINE_COUNTER = 0\<rparr>, 0, 0)"
    if "ROBOT_MODE g = FOLLOW_LINE"
    using decide_follow_lost [of g "readings []"] that no_readings by simp
  have b: "\<exists>cmds. decide_run \<lparr>ROBOT_MODE = LOST_LINE_SEARCH, LOST_LINE_COUNTER = 0\<rparr>
                    (replicate n (readings [])) =
                  Inr (\<lparr>ROBOT_MODE = LOST_LINE_SEARCH, LOST_LINE_COUNTER = int n\<rparr>, cmds)"
    if "int n \<le> MAX_LOST_TIME_FRAMES"
    using decide_run_search [of 0 n] that by simp
  have c: "\<exists>turn speed. decide_robot_action h st =
             Inr (\<lparr>ROBOT_MODE = FOLLOW_LINE, LOST_LINE_COUNTER = 0\<rparr>, turn, speed)"
    if "ROBOT_MODE h = LOST_LINE_SEARCH \<and> (\<exists>s. st s)"
    using decide_search_found [of h st] that by simp
  have d: "\<exists>a'. main_loop (replicate n False)
                 \<lparr>robot_pos = (x, y), robot_angle = a,
                    controller = \<lparr>ROBOT_MODE = LOST_LINE_SEARCH, LOST_LINE_COUNTER = 0\<rparr>\<rparr> =
               Inr \<lparr>robot_pos = (x, y), robot_angle = a',
                      controller =
                        \<lparr>ROBOT_MODE = LOST_LINE_SEARCH, LOST_LINE_COUNTER = int n\<rparr>\<rparr>"
    if "160 \<le> x \<and> x < 640 \<and> 160 \<le> y \<and> y < 440 \<and> int n \<le> MAX_LOST_TIME_FRAMES"
    using main_loop_searching_inside_track [of x y 0 n a] that by simp
  have e: "main_loop (replicate n False)
          \<lparr>robot_pos = (x, y), robot_angle = a,
             controller = \<lparr>ROBOT_MODE = LOST_LINE_SEARCH, LOST_LINE_COUNTER = 0\<rparr>\<rparr> =
        Inl SystemExit"
    if "160 \<le> x \<and> x < 640 \<and> 160 \<le> y \<and> y < 440 \<and> MAX_LOST_TIME_FRAMES < int n"
    using main_loop_timeout_inside_track [of x y n a] that by simp
  show ?thesis
    using a b c d e decide_run_timeout [of n] by blast
qed

theorem search_aborts_after_timeout_witness:
  "decide_robot_action \<lparr>ROBOT_MODE = FOLLOW_LINE, LOST_LINE_COUNTER = 0\<rparr> (readings []) =
     Inr (\<lparr>ROBOT_MODE = LOST_LINE_SEARCH, LOST_LINE_COUNTER = 0\<rparr>, 0, 0)
   \<and> (\<exists>cmds. decide_run \<lparr>ROBOT_MODE = LOST_LINE_SEARCH, LOST_LINE_COUNTER = 0\<rparr>
               (replicate 120 (readings [])) =
             Inr (\<lparr>ROBOT_MODE = LOST_LINE_SEARCH, LOST_LINE_COUNTER = 120\<rparr>, cmds))
   \<and> decide_run \<lparr>ROBOT_MODE = LOST_LINE_SEARCH, LOST_LINE_COUNTER = 0\<rparr>
       (replicate 121 (readings [])) = Inl SystemExit
   \<and> (\<exists>turn speed.
         decide_robot_action \<lparr>ROBOT_MODE = LOST_LINE_SEARCH, LOST_LINE_COUNTER = 57\<rparr>
           (readings [center]) =
         Inr (\<lparr>ROBOT_MODE = FOLLOW_LINE, LOST_LINE_COUNTER = 0\<rparr>, turn, speed))
   \<and> (\<exists>a'. main_loop (replicate 120 False)
              \<lparr>robot_pos = (400, 300), robot_angle = 0,
                 controller = \<lparr>ROBOT_MODE = LOST_LINE_SEARCH, LOST_LINE_COUNTER = 0\<rparr>\<rparr> =
            Inr \<lparr>robot_pos = (400, 300), robot_angle = a',
                   controller = \<lparr>ROBOT_MODE = LOST_LINE_SEARCH, LOST_LINE_COUNTER = 120\<rparr>\<rparr>)
   \<and> main_loop (replicate 121 False)
        \<lparr>robot_pos = (400, 300), robot_angle = 0,
           controller = \<lparr>ROBOT_MODE = LOST_LINE_SEARCH, LOST_LINE_COUNTER = 0\<rparr>\<rparr> =
      Inl SystemExit"
proof -
  have e: "\<exists>s. readings [center] s"
    by (simp add: readings_def)
  show ?thesis
    using search_aborts_after_timeout
            [of "\<lparr>ROBOT_MODE = FOLLOW_LINE, LOST_LINE_COUNTER = 0\<rparr>" 120
                "\<lparr>ROBOT_MODE = LOST_LINE_SEARCH, LOST_LINE_COUNTER = 57\<rparr>" "readings [center]"
                400 300 0]
          search_aborts_after_timeout
            [of "\<lparr>ROBOT_MODE = FOLLOW_LINE, LOST_LINE_COUNTER = 0\<rparr>" 121
                "\<lparr>ROBOT_MODE = LOST_LINE_SEARCH, LOST_LINE_COUNTER = 57\<rparr>" "readings [center]"
                400 300 0]
          e
    by (simp add: MAX_LOST_TIME_FRAMES_def)
qed

subsection \<open>Following with the centre sensor on\<close>

text \<open>
  Claim C3. In \<open>FOLLOW_LINE\<close> with the centre sensor on, the call returns the turn
  \<open>clamp (steering_error * TURN_RATE)\<close> between \<open>- 3 * TURN_RATE\<close> and \<open>3 * TURN_RATE\<close>, where the
  steering error is the sum of the weights of exactly the sensors that are on, and the speed
  \<open>BASE_ROBOT_SPEED\<close>. When the centre sensor is the only one on, the steering error is 0, the
  turn is 0 and the speed is \<open>BASE_ROBOT_SPEED\<close>.
\<close>

theorem center_on_proportional_steering:
  assumes "ROBOT_MODE g = FOLLOW_LINE" and "st center"
  shows "decide_robot_action g st =
           Inr (g\<lparr>LOST_LINE_COUNTER := 0\<rparr>,
                max (- 3 * TURN_RATE)
                  (min (3 * TURN_RATE) ((\<Sum>s \<in> {s. st s}. SENSOR_WEIGHTS s) * TURN_RATE)),
                BASE_ROBOT_SPEED)
         \<and> ((\<forall>s. s \<noteq> center \<longrightarrow> \<not> st s) \<longrightarrow>
              (\<Sum>s \<in> {s. st s}. SENSOR_WEIGHTS s) = 0 \<and>
              decide_robot_action g st = Inr (g\<lparr>LOST_LINE_COUNTER := 0\<rparr>, 0, BASE_ROBOT_SPEED))"
proof -
  have a: "decide_robot_action g st =
           Inr (g\<lparr>LOST_LINE_COUNTER := 0\<rparr>,
                max (- 3 * TURN_RATE)
                  (min (3 * TURN_RATE) ((\<Sum>s \<in> {s. st s}. SENSOR_WEIGHTS s) * TURN_RATE)),
                BASE_ROBOT_SPEED)"
    using decide_follow_center [of g st] assms
    by (simp add: clamp_turn_def steering_error_sum mult.commute)
  have b: "(\<Sum>s \<in> {s. st s}. SENSOR_WEIGHTS s) = 0" if "\<forall>s. s \<noteq> center \<longrightarrow> \<not> st s"
  proof -
    have "{s. st s} = {center}"
      using that assms(2) by auto
    then show ?thesis by simp
  qed
  show ?thesis
    using a b by (auto simp: TURN_RATE_def)
qed

theorem center_on_proportional_steering_witness:
  "decide_robot_action \<lparr>ROBOT_MODE = FOLLOW_LINE, LOST_LINE_COUNTER = 0\<rparr>
       (\<lambda>s. s = center \<or> s = right)
     = Inr (\<lparr>ROBOT_MODE = FOLLOW_LINE, LOST_LINE_COUNTER = 0\<rparr>, 4, 2)
   \<and> decide_robot_action \<lparr>ROBOT_MODE = FOLLOW_LINE, LOST_LINE_COUNTER = 0\<rparr> (\<lambda>s. s = center)
     = Inr (\<lparr>ROBOT_MODE = FOLLOW_LINE, LOST_LINE_COUNTER = 0\<rparr>, 0, 2)"
proof -
  have 1: "{s. s = center \<or> s = right} = {center, right}"
    by auto
  show ?thesis
    using center_on_proportional_steering
            [of "\<lparr>ROBOT_MODE = FOLLOW_LINE, LOST_LINE_COUNTER = 0\<rparr>" "\<lambda>s. s = center \<or> s = right"]
          center_on_proportional_steering
            [of "\<lparr>ROBOT_MODE = FOLLOW_LINE, LOST_LINE_COUNTER = 0\<rparr>" "\<lambda>s. s = center"]
    by (simp add: 1 TURN_RATE_def BASE_ROBOT_SPEED_def)
qed

subsection \<open>Following with the centre sensor off\<close>

text \<open>
  Claim C4. In \<open>FOLLOW_LINE\<close> with the centre sensor off and some other sensor on, the turn is
  that of the first of the four priority rules, in the listed order, whose condition holds. For
  the readings left on, right off, left-forward off, right-forward on, centre off, that is rule 1
  with \<open>- 1.5 * TURN_RATE\<close>, not rule 4 with \<open>2 * TURN_RATE\<close>. When no rule matches, the turn is the
  weighted sum clamped.
\<close>

theorem priority_rules_in_order:
  assumes "ROBOT_MODE g = FOLLOW_LINE" and "\<not> st center" and "\<exists>s. st s"
  shows "decide_robot_action g st =
           Inr (g\<lparr>LOST_LINE_COUNTER := 0\<rparr>, first_matching_rule st, BASE_ROBOT_SPEED)
         \<and> (st left \<and> \<not> st right \<and> \<not> st left_forward \<and> st right_forward \<longrightarrow>
              first_matching_rule st = - 1.5 * TURN_RATE \<and>
              first_matching_rule st \<noteq> 2 * TURN_RATE)
         \<and> (find (\<lambda>rule. fst rule st) priority_rules = None \<longrightarrow>
              first_matching_rule st =
                max (- 3 * TURN_RATE)
                  (min (3 * TURN_RATE) ((\<Sum>s \<in> {s. st s}. SENSOR_WEIGHTS s) * TURN_RATE)))"
proof -
  have "decide_robot_action g st =
           Inr (g\<lparr>LOST_LINE_COUNTER := 0\<rparr>, first_matching_rule st, BASE_ROBOT_SPEED)"
    using decide_follow_center_off [of g st] assms
    by (simp add: center_off_turn_first_matching)
  moreover have "first_matching_rule st = - 1.5 * TURN_RATE \<and>
                 first_matching_rule st \<noteq> 2 * TURN_RATE"
    if "st left \<and> \<not> st right \<and> \<not> st left_forward \<and> st right_forward"
    using that by (simp add: first_matching_rule_def priority_rules_def TURN_RATE_def)
  moreover have "first_matching_rule st =
                   max (- 3 * TURN_RATE)
                     (min (3 * TURN_RATE) ((\<Sum>s \<in> {s. st s}. SENSOR_WEIGHTS s) * TURN_RATE))"
    if "find (\<lambda>rule. fst rule st) priority_rules = None"
    using that by (simp add: first_matching_rule_def)
  ultimately show ?thesis by blast
qed

theorem priority_rules_in_order_witness:
  "decide_robot_action \<lparr>ROBOT_MODE = FOLLOW_LINE, LOST_LINE_COUNTER = 0\<rparr>
       (\<lambda>s. s = left \<or> s = right_forward)
     = Inr (\<lparr>ROBOT_MODE = FOLLOW_LINE, LOST_LINE_COUNTER = 0\<rparr>, - 3, 2)
   \<and> decide_robot_action \<lparr>ROBOT_MODE = FOLLOW_LINE, LOST_LINE_COUNTER = 0\<rparr>
       (\<lambda>s. s = left \<or> s = right)
     = Inr (\<lparr>ROBOT_MODE = FOLLOW_LINE, LOST_LINE_COUNTER = 0\<rparr>, 0, 2)"
proof -
  have 1: "{s. s = left \<or> s = right} = {left, right}"
    by auto
  have 2: "\<exists>s. s = left \<or> s = right_forward"
    by blast
  have 3: "\<exists>s. s = left \<or> s = right"
    by blast
  show ?thesis
    using priority_rules_in_order
            [of "\<lparr>ROBOT_MODE = FOLLOW_LINE, LOST_LINE_COUNTER = 0\<rparr>"
                "\<lambda>s. s = left \<or> s = right_forward"]
          priority_rules_in_order
            [of "\<lparr>ROBOT_MODE = FOLLOW_LINE, LOST_LINE_COUNTER = 0\<rparr>" "\<lambda>s. s = left \<or> s = right"]
          2 3
    by (simp add: first_matching_rule_def priority_rules_def 1 TURN_RATE_def
          BASE_ROBOT_SPEED_def)
qed

subsection \<open>The lost-line counter\<close>

text \<open>
  Claim C7. Whenever a call returns with the mode \<open>FOLLOW_LINE\<close>, the counter it leaves is 0:
  that covers every transition from \<open>LOST_LINE_SEARCH\<close> into \<open>FOLLOW_LINE\<close>. A call in
  \<open>FOLLOW_LINE\<close> with some sensor on stays in \<open>FOLLOW_LINE\<close> and leaves the counter at 0. So
  in every state of the globals reachable from the initial one, the mode \<open>FOLLOW_LINE\<close> comes
  with the counter 0.
\<close>

theorem lost_counter_reset:
  "(decide_robot_action g st = Inr (g', cmd) \<and> ROBOT_MODE g' = FOLLOW_LINE \<longrightarrow>
      LOST_LINE_COUNTER g' = 0)
   \<and> (decide_robot_action g st = Inr (g', cmd) \<and> ROBOT_MODE g = FOLLOW_LINE \<and> (\<exists>s. st s) \<longrightarrow>
        ROBOT_MODE g' = FOLLOW_LINE \<and> LOST_LINE_COUNTER g' = 0)
   \<and> (reachable g \<and> ROBOT_MODE g = FOLLOW_LINE \<longrightarrow> LOST_LINE_COUNTER g = 0)"
proof -
  have step: "LOST_LINE_COUNTER g' = 0"
    if "decide_robot_action g st = Inr (g', cmd)" and "ROBOT_MODE g' = FOLLOW_LINE"
    for g st g' cmd
    using that
    by (auto simp: decide_robot_action_def Let_def split: robot_mode.splits if_splits)
  have follow: "ROBOT_MODE g' = FOLLOW_LINE \<and> LOST_LINE_COUNTER g' = 0"
    if "decide_robot_action g st = Inr (g', cmd)" and "ROBOT_MODE g = FOLLOW_LINE"
      and "\<exists>s. st s"
    using that decide_follow_center [of g st] decide_follow_center_off [of g st]
    by (cases "st center") auto
  have inv: "ROBOT_MODE g = FOLLOW_LINE \<longrightarrow> LOST_LINE_COUNTER g = 0" if "reachable g"
    using that
  proof (induction rule: reachable.induct)
    case reachable_init
    then show ?case by (simp add: initial_globals_def)
  next
    case (reachable_step g st g' cmd)
    then show ?case using step by blast
  qed
  show ?thesis
    using step follow inv by blast
qed

theorem lost_counter_reset_witness:
  "decide_robot_action \<lparr>ROBOT_MODE = LOST_LINE_SEARCH, LOST_LINE_COUNTER = 57\<rparr> (readings [left])
     = Inr (\<lparr>ROBOT_MODE = FOLLOW_LINE, LOST_LINE_COUNTER = 0\<rparr>, - 3, 0)
   \<and> decide_robot_action \<lparr>ROBOT_MODE = FOLLOW_LINE, LOST_LINE_COUNTER = 0\<rparr> (readings [left])
     = Inr (\<lparr>ROBOT_MODE = FOLLOW_LINE, LOST_LINE_COUNTER = 0\<rparr>, - 3, 2)
   \<and> reachable \<lparr>ROBOT_MODE = FOLLOW_LINE, LOST_LINE_COUNTER = 0\<rparr>
   \<and> LOST_LINE_COUNTER \<lparr>ROBOT_MODE = FOLLOW_LINE, LOST_LINE_COUNTER = 0\<rparr> = 0"
proof -
  have e: "\<exists>s. readings [left] s" "\<not> readings [left] center"
    by (simp_all add: readings_def)
  have 1:
    "decide_robot_action \<lparr>ROBOT_MODE = LOST_LINE_SEARCH, LOST_LINE_COUNTER = 57\<rparr> (readings [left])
       = Inr (\<lparr>ROBOT_MODE = FOLLOW_LINE, LOST_LINE_COUNTER = 0\<rparr>, - 3, 0)"
    using decide_search_found
            [of "\<lparr>ROBOT_MODE = LOST_LINE_SEARCH, LOST_LINE_COUNTER = 57\<rparr>" "readings [left]"] e
    by (simp add: search_turn_eq TURN_RATE_def)
  have 2:
    "decide_robot_action \<lparr>ROBOT_MODE = FOLLOW_LINE, LOST_LINE_COUNTER = 0\<rparr> (readings [left])
       = Inr (\<lparr>ROBOT_MODE = FOLLOW_LINE, LOST_LINE_COUNTER = 0\<rparr>, - 3, 2)"
    using decide_follow_center_off
            [of "\<lparr>ROBOT_MODE = FOLLOW_LINE, LOST_LINE_COUNTER = 0\<rparr>" "readings [left]"] e
    by (simp add: center_off_turn_def readings_def TURN_RATE_def BASE_ROBOT_SPEED_def)
  have 3: "reachable \<lparr>ROBOT_MODE = FOLLOW_LINE, LOST_LINE_COUNTER = 0\<rparr>"
    using reachable_init by (simp add: initial_globals_def)
  show ?thesis
    using lost_counter_reset
            [of "\<lparr>ROBOT_MODE = LOST_LINE_SEARCH, LOST_LINE_COUNTER = 57\<rparr>" "readings [left]"
                "\<lparr>ROBOT_MODE = FOLLOW_LINE, LOST_LINE_COUNTER = 0\<rparr>" "(- 3, 0)"]
          1 2 3
    by simp
qed

subsection \<open>The size of the turn\<close>

text \<open>
  Claim C9. Every call that returns gives a turn of magnitude at most \<open>3 * TURN_RATE\<close>. The
  branches that take the weighted sum (centre on, or centre off with no priority rule matching)
  return it clamped to that bound; the branches that do not clamp return a constant of
  magnitude at most \<open>2 * TURN_RATE\<close>: a matching priority rule returns its own turn, searching
  returns a turn of magnitude \<open>1.5 * TURN_RATE\<close>, and losing the line returns 0.
\<close>

theorem turn_angle_bounded:
  assumes "decide_robot_action g st = Inr (g', turn, speed)"
  shows "\<bar>turn\<bar> \<le> 3 * TURN_RATE
         \<and> (ROBOT_MODE g = LOST_LINE_SEARCH \<longrightarrow> \<bar>turn\<bar> = 1.5 * TURN_RATE)
         \<and> (\<forall>rule. ROBOT_MODE g = FOLLOW_LINE \<and> \<not> st center \<and> (\<exists>s. st s) \<and>
                find (\<lambda>rule. fst rule st) priority_rules = Some rule \<longrightarrow>
                turn = snd rule \<and> \<bar>turn\<bar> \<le> 2 * TURN_RATE)
         \<and> (ROBOT_MODE g = FOLLOW_LINE \<and> (\<exists>s. st s) \<and>
              (st center \<or> find (\<lambda>rule. fst rule st) priority_rules = None) \<longrightarrow>
              turn = clamp_turn (steering_error st * TURN_RATE))
         \<and> (ROBOT_MODE g = FOLLOW_LINE \<and> (\<forall>s. \<not> st s) \<longrightarrow> turn = 0)"
proof (cases "ROBOT_MODE g")
  case FOLLOW_LINE
  show ?thesis
  proof (cases "\<exists>s. st s")
    case False
    then have "turn = 0"
      using decide_follow_lost [of g st] FOLLOW_LINE assms by simp
    then show ?thesis
      using False FOLLOW_LINE by (simp add: TURN_RATE_def)
  next
    case True
    show ?thesis
    proof (cases "st center")
      case c: True
      then have "turn = clamp_turn (steering_error st * TURN_RATE)"
        using decide_follow_center [of g st] FOLLOW_LINE assms by simp
      then show ?thesis
        using c True FOLLOW_LINE clamp_turn_bounds by auto
    next
      case c: False
      then have t: "turn = center_off_turn st"
        using decide_follow_center_off [of g st] FOLLOW_LINE True assms by simp
      show ?thesis
      proof (cases "find (\<lambda>rule. fst rule st) priority_rules")
        case None
        then have "turn = clamp_turn (steering_error st * TURN_RATE)"
          using t
          by (simp add: center_off_turn_first_matching first_matching_rule_def clamp_turn_def
                steering_error_sum mult.commute)
        then show ?thesis
          using c True FOLLOW_LINE None clamp_turn_bounds by auto
      next
        case (Some rule)
        then show ?thesis
          using find_priority_rules [OF Some] t c True FOLLOW_LINE
          by (auto simp: TURN_RATE_def)
      qed
    qed
  qed
next
  case LOST_LINE_SEARCH
  then have "turn = search_turn (LOST_LINE_COUNTER g + 1)"
    using assms decide_search_found [of g st] decide_search_off [of g st]
    by (cases "\<exists>s. st s") (auto split: if_splits)
  then show ?thesis
    using LOST_LINE_SEARCH search_turn_abs [of "LOST_LINE_COUNTER g + 1"]
    by (simp add: TURN_RATE_def)
qed

theorem turn_angle_bounded_witness:
  "decide_robot_action \<lparr>ROBOT_MODE = FOLLOW_LINE, LOST_LINE_COUNTER = 0\<rparr>
       (readings [right_forward])
     = Inr (\<lparr>ROBOT_MODE = FOLLOW_LINE, LOST_LINE_COUNTER = 0\<rparr>, 4, 2)
   \<and> \<bar>4 :: real\<bar> \<le> 3 * TURN_RATE \<and> \<bar>4 :: real\<bar> \<le> 2 * TURN_RATE"
proof -
  have d: "decide_robot_action \<lparr>ROBOT_MODE = FOLLOW_LINE, LOST_LINE_COUNTER = 0\<rparr>
               (readings [right_forward])
             = Inr (\<lparr>ROBOT_MODE = FOLLOW_LINE, LOST_LINE_COUNTER = 0\<rparr>, 4, 2)"
    by (simp add: decide_robot_action_def readings_def sensor_names_def center_off_turn_def
          TURN_RATE_def BASE_ROBOT_SPEED_def)
  show ?thesis
    using turn_angle_bounded [OF d] d by (simp add: TURN_RATE_def)
qed

subsection \<open>The pose update\<close>




subsection \<open>Reading the sensors\<close>



subsection \<open>Exceptions\<close>

text \<open>
  Claim C8, as the code has it. Sensing always returns, and the pose update has no failing
  operation. The decision function returns for every mode and every reading but one case: in
  \<open>LOST_LINE_SEARCH\<close> with no sensor on and the incremented counter above
  \<open>MAX_LOST_TIME_FRAMES\<close> it calls \<open>exit()\<close>, so \<open>SystemExit\<close> leaves the decision function and
  the loop body. No other exception leaves an iteration of the loop.
\<close>

theorem exceptions_only_on_search_timeout:
  "(\<exists>states. sense_line WIN pos = Inr states)
   \<and> (decide_robot_action g st = Inl e \<longleftrightarrow>
        e = SystemExit \<and> ROBOT_MODE g = LOST_LINE_SEARCH \<and> (\<forall>s. \<not> st s) \<and>
        MAX_LOST_TIME_FRAMES < LOST_LINE_COUNTER g + 1)
   \<and> ((\<exists>r. decide_robot_action g st = Inr r) \<longleftrightarrow>
        \<not> (ROBOT_MODE g = LOST_LINE_SEARCH \<and> (\<forall>s. \<not> st s) \<and>
           MAX_LOST_TIME_FRAMES < LOST_LINE_COUNTER g + 1))
   \<and> (main_loop_body s = Inl e \<longrightarrow>
        e = SystemExit \<and> ROBOT_MODE (controller s) = LOST_LINE_SEARCH \<and>
        MAX_LOST_TIME_FRAMES \<le> LOST_LINE_COUNTER (controller s))"
proof -
  have a: "\<exists>states. sense_line WIN pos = Inr states"
    using sense_line_result by blast
  have b: "(\<exists>r. decide_robot_action g st = Inr r) \<longleftrightarrow>
        \<not> (ROBOT_MODE g = LOST_LINE_SEARCH \<and> (\<forall>s. \<not> st s) \<and>
           MAX_LOST_TIME_FRAMES < LOST_LINE_COUNTER g + 1)"
  proof (cases "decide_robot_action g st")
    case (Inl e')
    then show ?thesis using decide_Inl_iff [of g st e'] by simp
  next
    case (Inr r)
    then have "\<not> (ROBOT_MODE g = LOST_LINE_SEARCH \<and> (\<forall>s. \<not> st s) \<and>
           MAX_LOST_TIME_FRAMES < LOST_LINE_COUNTER g + 1)"
      using decide_Inl_iff [of g st SystemExit] by auto
    moreover have "\<exists>r. decide_robot_action g st = Inr r"
      using Inr by blast
    ultimately show ?thesis by blast
  qed
  show ?thesis
    using a b decide_Inl_iff [of g st e] main_loop_body_Inl [of s e] by blast
qed

theorem exceptions_only_on_search_timeout_witness:
  "decide_robot_action \<lparr>ROBOT_MODE = LOST_LINE_SEARCH, LOST_LINE_COUNTER = 120\<rparr> (readings [])
     = Inl SystemExit
   \<and> (\<exists>r. decide_robot_action \<lparr>ROBOT_MODE = LOST_LINE_SEARCH, LOST_LINE_COUNTER = 119\<rparr>
             (readings []) = Inr r)
   \<and> main_loop_body
       \<lparr>robot_pos = (400, 300), robot_angle = 0,
          controller = \<lparr>ROBOT_MODE = LOST_LINE_SEARCH, LOST_LINE_COUNTER = 120\<rparr>\<rparr>
     = Inl SystemExit
   \<and> MAX_LOST_TIME_FRAMES \<le> 120"
proof -
  have m: "main_loop_body
       \<lparr>robot_pos = (400, 300), robot_angle = 0,
          controller = \<lparr>ROBOT_MODE = LOST_LINE_SEARCH, LOST_LINE_COUNTER = 120\<rparr>\<rparr>
     = Inl SystemExit"
    using main_loop_body_searching_inside_track [of 400 300 0 120]
    by (simp add: MAX_LOST_TIME_FRAMES_def)
  show ?thesis
    using exceptions_only_on_search_timeout
            [of "fill WHITE" "\<lambda>name. (0, 0)"
                "\<lparr>ROBOT_MODE = LOST_LINE_SEARCH, LOST_LINE_COUNTER = 120\<rparr>" "readings []"
                SystemExit
                "\<lparr>robot_pos = (400, 300), robot_angle = 0,
                   controller = \<lparr>ROBOT_MODE = LOST_LINE_SEARCH, LOST_LINE_COUNTER = 120\<rparr>\<rparr>"]
          exceptions_only_on_search_timeout
            [of "fill WHITE" "\<lambda>name. (0, 0)"
                "\<lparr>ROBOT_MODE = LOST_LINE_SEARCH, LOST_LINE_COUNTER = 119\<rparr>" "readings []"
                SystemExit
                "\<lparr>robot_pos = (400, 300), robot_angle = 0,
                   controller = \<lparr>ROBOT_MODE = LOST_LINE_SEARCH, LOST_LINE_COUNTER = 120\<rparr>\<rparr>"]
          m no_readings
    by (simp add: MAX_LOST_TIME_FRAMES_def)
qed

text \<open>
  Claim C8 as stated has no exception leave the decision function on the search-timeout path.
  In \<open>LOST_LINE_SEARCH\<close> with the counter at 120 and no sensor on, the call does not return a
  command: it raises \<open>SystemExit\<close>, and so does the loop iteration of a robot searching at the
  middle of the window.
\<close>

theorem search_timeout_exits_counterexample:
  "decide_robot_action \<lparr>ROBOT_MODE = LOST_LINE_SEARCH, LOST_LINE_COUNTER = 120\<rparr> (readings [])
     = Inl SystemExit
   \<and> main_loop_body
       \<lparr>robot_pos = (400, 300), robot_angle = 0,
          controller = \<lparr>ROBOT_MODE = LOST_LINE_SEARCH, LOST_LINE_COUNTER = 120\<rparr>\<rparr>
     = Inl SystemExit"
proof -
  have d: "decide_robot_action \<lparr>ROBOT_MODE = LOST_LINE_SEARCH, LOST_LINE_COUNTER = 120\<rparr>
             (readings []) = Inl SystemExit"
    using decide_search_off
            [of "\<lparr>ROBOT_MODE = LOST_LINE_SEARCH, LOST_LINE_COUNTER = 120\<rparr>" "readings []"]
          no_readings
    by (simp add: MAX_LOST_TIME_FRAMES_def)
  have m: "main_loop_body
       \<lparr>robot_pos = (400, 300), robot_angle = 0,
          controller = \<lparr>ROBOT_MODE = LOST_LINE_SEARCH, LOST_LINE_COUNTER = 120\<rparr>\<rparr>
     = Inl SystemExit"
    using main_loop_body_searching_inside_track [of 400 300 0 120]
    by (simp add: MAX_LOST_TIME_FRAMES_def)
  show ?thesis
    using d m by simp
qed

subsection \<open>The speed\<close>

text \<open>
  Claim C10, as the code has it. In \<open>FOLLOW_LINE\<close> with some sensor on the speed returned is
  \<open>BASE_ROBOT_SPEED\<close>, in every branch. The speed returned is 0 exactly on the calls that enter
  \<open>LOST_LINE_SEARCH\<close> from \<open>FOLLOW_LINE\<close> and on the calls that start in \<open>LOST_LINE_SEARCH\<close>,
  among them the call that finds the line again and returns to \<open>FOLLOW_LINE\<close>; every other call
  returns \<open>BASE_ROBOT_SPEED\<close>.
\<close>

theorem speed_by_mode_and_readings:
  assumes "decide_robot_action g st = Inr (g', turn, speed)"
  shows "(ROBOT_MODE g = FOLLOW_LINE \<and> (\<exists>s. st s) \<longrightarrow> speed = BASE_ROBOT_SPEED)
         \<and> (speed = 0 \<longleftrightarrow>
              (ROBOT_MODE g = FOLLOW_LINE \<and> ROBOT_MODE g' = LOST_LINE_SEARCH)
              \<or> ROBOT_MODE g = LOST_LINE_SEARCH)
         \<and> (speed \<noteq> 0 \<longrightarrow> speed = BASE_ROBOT_SPEED)"
  using assms
  by (auto simp: decide_robot_action_def any_sensor_iff Let_def BASE_ROBOT_SPEED_def
           split: robot_mode.splits if_splits)

theorem speed_by_mode_and_readings_witness:
  "decide_robot_action \<lparr>ROBOT_MODE = FOLLOW_LINE, LOST_LINE_COUNTER = 0\<rparr> (readings [left_forward]) =
     Inr (\<lparr>ROBOT_MODE = FOLLOW_LINE, LOST_LINE_COUNTER = 0\<rparr>, - 4, 2)
   \<and> (2 :: real) = BASE_ROBOT_SPEED"
proof -
  have d: "decide_robot_action \<lparr>ROBOT_MODE = FOLLOW_LINE, LOST_LINE_COUNTER = 0\<rparr> (readings [left_forward]) =
     Inr (\<lparr>ROBOT_MODE = FOLLOW_LINE, LOST_LINE_COUNTER = 0\<rparr>, - 4, 2)"
    by (simp add: decide_robot_action_def readings_def sensor_names_def center_off_turn_def
          TURN_RATE_def BASE_ROBOT_SPEED_def)
  show ?thesis
    using speed_by_mode_and_readings [OF d] d by (simp add: readings_def)
qed

text \<open>
  Claim C10 as stated has the speed 0 exactly on the ticks that enter or remain in searching.
  A searching call with the centre sensor on returns the speed 0 and leaves the mode at
  \<open>FOLLOW_LINE\<close>: it neither enters nor remains in \<open>LOST_LINE_SEARCH\<close>.
\<close>

theorem speed_zero_counterexample:
  "decide_robot_action \<lparr>ROBOT_MODE = LOST_LINE_SEARCH, LOST_LINE_COUNTER = 5\<rparr> (readings [center]) =
     Inr (\<lparr>ROBOT_MODE = FOLLOW_LINE, LOST_LINE_COUNTER = 0\<rparr>, 1.5 * TURN_RATE, 0)
   \<and> FOLLOW_LINE \<noteq> LOST_LINE_SEARCH"
proof -
  have e: "\<exists>s. readings [center] s"
    by (simp add: readings_def)
  show ?thesis
    using decide_search_found [of "\<lparr>ROBOT_MODE = LOST_LINE_SEARCH, LOST_LINE_COUNTER = 5\<rparr>" "readings [center]"] e
    by (simp add: search_turn_eq)
qed

end
